theory Spec2Isabelle
  imports Complex_Main
begin

section \<open>Python values used by fetch\_audio.py\<close>

text \<open>
  A Python \<open>str\<close> is a sequence of Unicode code points, so it is modelled as a list of
  the code points' numbers. \<open>ascii\<close> turns an ASCII literal of the source into that type.
\<close>

type_synonym pystr = "nat list"

definition ascii :: "string \<Rightarrow> pystr" where
  "ascii s = map of_char s"

text \<open>\<open>str(n)\<close> for a Python int: decimal digits, with a leading minus sign.\<close>

fun digits :: "nat \<Rightarrow> pystr" where
  "digits n = (if n < 10 then [48 + n] else digits (n div 10) @ [48 + n mod 10])"

declare digits.simps [simp del]

definition str_int :: "int \<Rightarrow> pystr" where
  "str_int i = (if i < 0 then 45 # digits (nat (- i)) else digits (nat i))"

text \<open>
  \<open>s.replace(old, new)\<close>: one pass from the left; where \<open>old\<close> starts at the current
  position it is replaced and the scan resumes behind it, otherwise one character is kept.
  For an empty \<open>old\<close> Python puts \<open>new\<close> before every character and at the end.
\<close>

definition startswith :: "'a list \<Rightarrow> 'a list \<Rightarrow> bool" where
  "startswith s old = (take (length old) s = old)"

function replace_scan :: "'a list \<Rightarrow> 'a list \<Rightarrow> 'a list \<Rightarrow> 'a list" where
  "replace_scan [] old new = []"
| "replace_scan (c # s) old new =
     (if old \<noteq> [] \<and> startswith (c # s) old
      then new @ replace_scan (drop (length old) (c # s)) old new
      else c # replace_scan s old new)"
  by pat_completeness auto
termination
  by (relation "measure (\<lambda>(s, old, new). length s)") auto

definition str_replace :: "'a list \<Rightarrow> 'a list \<Rightarrow> 'a list \<Rightarrow> 'a list" where
  "str_replace s old new =
     (if old = [] then new @ concat (map (\<lambda>c. c # new) s) else replace_scan s old new)"

text \<open>
  \<open>s.strip()\<close> removes leading and trailing whitespace; \<open>py_isspace\<close> lists the code
  points that Python's \<open>str\<close> treats as whitespace.
\<close>

definition py_isspace :: "nat \<Rightarrow> bool" where
  "py_isspace c =
     ((9 \<le> c \<and> c \<le> 13) \<or> (28 \<le> c \<and> c \<le> 32) \<or> c = 133 \<or> c = 160 \<or> c = 5760 \<or>
      (8192 \<le> c \<and> c \<le> 8202) \<or> c = 8232 \<or> c = 8233 \<or> c = 8239 \<or> c = 8287 \<or>
      c = 12288)"

definition str_strip :: "pystr \<Rightarrow> pystr" where
  "str_strip s = rev (dropWhile py_isspace (rev (dropWhile py_isspace s)))"

text \<open>
  The exceptions the module can raise. \<open>FetchError\<close> is the module's own class,
  \<open>PyException\<close> is the builtin \<open>Exception\<close> raised with a message, \<open>IndexError\<close>
  comes from \<open>[...][0]\<close> on an empty list, \<open>ParseError\<close> stands for whatever
  \<open>json.loads(...)["data"]["text"]\<close> raises on a body of another shape, \<open>OSError\<close> for a
  failing \<open>open\<close> or \<open>os.mkdir\<close>, \<open>UnicodeEncodeError\<close> for a \<open>write\<close> of a string
  that the file's encoding cannot encode, and \<open>SystemExit\<close> is what \<open>exit()\<close> raises.
\<close>

datatype error =
    FetchError pystr
  | PyException pystr
  | IndexError
  | ParseError
  | OSError
  | UnicodeEncodeError
  | SystemExit

section \<open>The upstream API\<close>

text \<open>
  The parsed answers of the three endpoints the module reads: the entries of
  \<open>content["data"]\<close> of the audio edition listing, the entries of
  \<open>content["data"]["surahs"]["references"]\<close> of the meta endpoint, and the answer of the
  per-verse endpoint for each global verse number. Of that answer the module uses the
  status code and, when the status is 200, the string it finds under
  \<open>["data"]["text"]\<close> after decoding the body, replacing its single quotes by double
  quotes and parsing it as JSON; \<open>data_text\<close> is that string, or \<open>None\<close> when the
  parsing or the lookup raises. The \<open>debug\<close> arguments only print and are left out.
\<close>

record edition =
  ed_language :: pystr
  ed_name :: pystr
  ed_identifier :: pystr

record surah_ref =
  ref_name :: pystr
  numberOfAyahs :: int

record response =
  status_code :: int
  data_text :: "pystr option"

record api =
  editions :: "edition list"
  references :: "surah_ref list"
  ayah :: "int \<Rightarrow> response"

section \<open>get\_reciters and get\_surahs\<close>

record reciter =
  reciter_id :: int
  reciter_name :: pystr
  reciter_code :: pystr

record surah =
  surah_id :: int
  surah_name :: pystr
  aya_base :: int
  n_aya :: int

text \<open>
  The loop of \<open>get_reciters\<close>: \<open>i\<close> is the local \<open>id\<close>, which only advances on an
  entry whose language is \<open>"ar"\<close>; \<open>reciters\<close> is the list built so far.
\<close>

fun get_reciters_loop :: "edition list \<Rightarrow> int \<Rightarrow> reciter list \<Rightarrow> reciter list" where
  "get_reciters_loop [] i reciters = reciters"
| "get_reciters_loop (e # es) i reciters =
     (if ed_language e = ascii ''ar''
      then get_reciters_loop es (i + 1)
             (reciters @ [\<lparr>reciter_id = i, reciter_name = ed_name e,
                            reciter_code = ed_identifier e\<rparr>])
      else get_reciters_loop es i reciters)"

definition get_reciters :: "edition list \<Rightarrow> reciter list" where
  "get_reciters content = get_reciters_loop content 1 []"

text \<open>
  The loop of \<open>get_surahs\<close>: \<open>i\<close> is the local \<open>id\<close> and \<open>base\<close> the local
  \<open>aya_base\<close>, both updated after the entry has been appended.
\<close>

fun get_surahs_loop :: "surah_ref list \<Rightarrow> int \<Rightarrow> int \<Rightarrow> surah list \<Rightarrow> surah list" where
  "get_surahs_loop [] i base surahs = surahs"
| "get_surahs_loop (r # rs) i base surahs =
     get_surahs_loop rs (i + 1) (base + numberOfAyahs r)
       (surahs @ [\<lparr>surah_id = i, surah_name = ref_name r, aya_base = base,
                    n_aya = numberOfAyahs r\<rparr>])"

definition get_surahs :: "surah_ref list \<Rightarrow> surah list" where
  "get_surahs content = get_surahs_loop content 1 0 []"

section \<open>get\_recitations\<close>

record recitation =
  rtext :: pystr
  audio_link :: pystr

text \<open>
  The phrase that line 126 of the source replaces: the 39 code points of the string
  literal, written in hexadecimal.
\<close>

definition bismillah :: pystr where
  "bismillah =
     [0x628, 0x650, 0x633, 0x6E1, 0x645, 0x650, 0x20,
      0x671, 0x644, 0x644, 0x651, 0x64E, 0x647, 0x650, 0x20,
      0x671, 0x644, 0x631, 0x651, 0x64E, 0x62D, 0x6E1, 0x645, 0x64E, 0x640, 0x670, 0x646,
      0x650, 0x20,
      0x671, 0x644, 0x631, 0x651, 0x64E, 0x62D, 0x650, 0x6CC, 0x645, 0x650]"

text \<open>
  Line 113 compares \<open>surah\<close>, the dictionary selected on line 99, with the int 1. In
  Python a dict and an int are never equal under \<open>==\<close>.
\<close>

definition dict_eq_int :: "surah \<Rightarrow> int \<Rightarrow> bool" where
  "dict_eq_int d k = False"

definition remove_bismillah :: "surah \<Rightarrow> int \<Rightarrow> bool" where
  "remove_bismillah surah start = (if (\<not> dict_eq_int surah 1) \<and> start = 1 then True else False)"

definition audio_link_of :: "pystr \<Rightarrow> int \<Rightarrow> pystr" where
  "audio_link_of reciter aya =
     ascii ''https://cdn.islamic.network/quran/audio/192/'' @ reciter @ ascii ''/'' @
     str_int aya @ ascii ''.mp3''"

text \<open>
  The loop over \<open>enumerate(required_ayat)\<close>: \<open>i\<close> is the position, \<open>recitations\<close> the
  list built so far. A status other than 200 raises \<open>FetchError\<close> and nothing is returned.
\<close>

fun fetch_ayat ::
  "api \<Rightarrow> pystr \<Rightarrow> bool \<Rightarrow> nat \<Rightarrow> int list \<Rightarrow> recitation list \<Rightarrow> error + recitation list"
where
  "fetch_ayat a reciter rb i [] recitations = Inr recitations"
| "fetch_ayat a reciter rb i (aya # rest) recitations =
     (let link = audio_link_of reciter aya;
          text_response = ayah a aya
      in if status_code text_response = 200
         then (case data_text text_response of
                 None \<Rightarrow> Inl ParseError
               | Some t \<Rightarrow>
                   let t' = (if i = 0 \<and> rb then str_replace t bismillah [] else t)
                   in fetch_ayat a reciter rb (i + 1) rest
                        (recitations @ [\<lparr>rtext = str_strip t', audio_link = link\<rparr>]))
         else Inl (FetchError (ascii ''Error in fetching text of aya number '' @ str_int aya)))"

definition get_recitations :: "api \<Rightarrow> int \<Rightarrow> int \<Rightarrow> int \<Rightarrow> int \<Rightarrow> error + recitation list" where
  "get_recitations a reciter_number surah_number start end =
     (let surahs = get_surahs (references a) in
      case map reciter_code
             (filter (\<lambda>r. reciter_id r = reciter_number) (get_reciters (editions a))) of
        [] \<Rightarrow> Inl IndexError
      | reciter # _ \<Rightarrow>
          if reciter = [] then Inl (FetchError (ascii ''Reciter id doesnt exist''))
          else if surah_number \<notin> set (map surah_id surahs)
          then Inl (FetchError (ascii ''Surah id doesnt exist''))
          else (case filter (\<lambda>s. surah_id s = surah_number) surahs of
                  [] \<Rightarrow> Inl IndexError
                | surah # _ \<Rightarrow>
                    if end > n_aya surah
                    then Inl (PyException
                           (ascii ''Surah '' @ surah_name surah @ ascii '' only contain '' @
                            str_int (n_aya surah) @ ascii '' ayat. Aya number '' @
                            str_int end @ ascii '' was required''))
                    else if start < 1
                    then Inl (PyException (ascii ''start can't be less than one''))
                    else if end < start
                    then Inl (PyException (ascii ''end can't be less than start''))
                    else
                      let required_ayat = map (\<lambda>n. n + aya_base surah) [start..end]
                      in fetch_ayat a reciter (remove_bismillah surah start) 0
                           required_ayat []))"

section \<open>download\_recitations\<close>

text \<open>
  \<open>os.path.join(a, b)\<close> with the POSIX separator: an absolute \<open>b\<close> replaces \<open>a\<close>;
  otherwise \<open>b\<close> is appended, after a \<open>/\<close> unless \<open>a\<close> is empty or ends with one.
\<close>

definition endswith :: "'a list \<Rightarrow> 'a list \<Rightarrow> bool" where
  "endswith s suffix = startswith (rev s) (rev suffix)"

definition os_path_join :: "pystr \<Rightarrow> pystr \<Rightarrow> pystr" where
  "os_path_join a b =
     (if startswith b (ascii ''/'') then b
      else if a = [] \<or> endswith a (ascii ''/'') then a @ b
      else a @ ascii ''/'' @ b)"

text \<open>
  The function reaches the outside world through \<open>os.path.exists\<close>, \<open>os.mkdir\<close> and
  \<open>download_file\<close> of \<open>codebase.utils\<close>, which is not among the given sources. They are
  parameters acting on a world state \<open>'w\<close>: \<open>os_mkdir\<close> may raise, and
  \<open>download_file\<close> returns the success flag the function tests.
\<close>

record 'w os =
  os_path_exists :: "pystr \<Rightarrow> 'w \<Rightarrow> bool"
  os_mkdir :: "pystr \<Rightarrow> 'w \<Rightarrow> error + 'w"
  download_file :: "pystr \<Rightarrow> pystr \<Rightarrow> 'w \<Rightarrow> bool \<times> 'w"

text \<open>
  The loop over \<open>enumerate(recitations)\<close>: \<open>i\<close> is the position, \<open>audios\<close> the paths
  collected so far. A failed download prints a message and calls \<open>exit()\<close>.
\<close>

fun download_loop ::
  "'w os \<Rightarrow> pystr \<Rightarrow> nat \<Rightarrow> pystr list \<Rightarrow> pystr list \<Rightarrow> 'w \<Rightarrow> (error + pystr list) \<times> 'w"
where
  "download_loop os destination i [] audios w = (Inr audios, w)"
| "download_loop os destination i (recitation_link # rest) audios w =
     (let file_path =
            os_path_join destination (ascii ''recitation_'' @ str_int (int i) @ ascii ''.mp3'');
          (succsess, w') = download_file os recitation_link file_path w
      in if \<not> succsess then (Inl SystemExit, w')
         else download_loop os destination (i + 1) rest (audios @ [file_path]) w')"

definition download_recitations ::
  "'w os \<Rightarrow> pystr list \<Rightarrow> pystr \<Rightarrow> 'w \<Rightarrow> (error + pystr list) \<times> 'w"
where
  "download_recitations os recitations destination w =
     (case (if \<not> os_path_exists os destination w then os_mkdir os destination w else Inr w) of
        Inl e \<Rightarrow> (Inl e, w)
      | Inr w1 \<Rightarrow> download_loop os destination 0 recitations [] w1)"

section \<open>generate\_ayat\_caption\_file\<close>

text \<open>
  The file system as the function sees it: the content of every file, and which paths
  \<open>open(path, "w")\<close> accepts. Opening for writing creates the file or truncates it.
  The file is opened with \<open>encoding="utf-8"\<close>, so \<open>write\<close> encodes its argument: UTF-8
  encodes every code point except the surrogates \<open>U+D800\<close> to \<open>U+DFFF\<close>, and on a
  string holding one \<open>write\<close> raises \<open>UnicodeEncodeError\<close> and adds nothing. Otherwise
  it appends to what has been written since the file was opened.
\<close>

record filesys =
  files :: "pystr \<rightharpoonup> pystr"
  writable :: "pystr \<Rightarrow> bool"

definition open_w :: "pystr \<Rightarrow> filesys \<Rightarrow> error + filesys" where
  "open_w path fs =
     (if writable fs path then Inr (fs\<lparr>files := (files fs)(path \<mapsto> [])\<rparr>) else Inl OSError)"

definition utf8_encodable :: "pystr \<Rightarrow> bool" where
  "utf8_encodable s = list_all (\<lambda>c. c < 0xD800 \<or> 0xDFFF < c) s"

definition file_write :: "pystr \<Rightarrow> pystr \<Rightarrow> filesys \<Rightarrow> error + filesys" where
  "file_write path s fs =
     (if utf8_encodable s
      then Inr (fs\<lparr>files :=
                    (files fs)(path \<mapsto> (case files fs path of None \<Rightarrow> s | Some c \<Rightarrow> c @ s))\<rparr>)
      else Inl UnicodeEncodeError)"

text \<open>
  The durations are Python numbers (floats, as \<open>recitations_durations\<close> produces them)
  and the accumulator starts as the int \<open>0\<close>. The model does not fix their arithmetic: the
  number type \<open>'n\<close> comes with the start value, Python's \<open>+\<close> on it and the text an
  f-string produces for a number, and no law is assumed of them. That text is made of
  ASCII characters (digits, sign, point, exponent, \<open>inf\<close>, \<open>nan\<close>), hence a \<open>string\<close>.
\<close>

record 'n pynum =
  num_zero :: 'n
  num_add :: "'n \<Rightarrow> 'n \<Rightarrow> 'n"
  num_str :: "'n \<Rightarrow> string"

text \<open>
  The loop over \<open>range(0, len(ayat_durations))\<close>; \<open>cum\<close> is
  \<open>cummulative_duration\<close>. The indices stay below both lengths, which the caller has
  compared before the loop starts. When a \<open>write\<close> raises, the loop ends there and the
  file keeps the lines written before.
\<close>

fun caption_loop ::
  "'n pynum \<Rightarrow> pystr list \<Rightarrow> 'n list \<Rightarrow> pystr \<Rightarrow> nat list \<Rightarrow> 'n \<Rightarrow> filesys \<Rightarrow>
   (error + unit) \<times> filesys"
where
  "caption_loop N ayat_texts ayat_durations destination [] cum fs = (Inr (), fs)"
| "caption_loop N ayat_texts ayat_durations destination (i # rest) cum fs =
     (case file_write destination
             (ascii (num_str N cum) @ ascii '':'' @
              ascii (num_str N (num_add N cum (ayat_durations ! i))) @
              ascii '':'' @ ayat_texts ! i @ [10])
             fs of
        Inl e \<Rightarrow> (Inl e, fs)
      | Inr fs' \<Rightarrow>
          caption_loop N ayat_texts ayat_durations destination rest
            (num_add N cum (ayat_durations ! i)) fs')"

definition generate_ayat_caption_file ::
  "'n pynum \<Rightarrow> pystr list \<Rightarrow> 'n list \<Rightarrow> pystr \<Rightarrow> filesys \<Rightarrow> (error + unit) \<times> filesys"
where
  "generate_ayat_caption_file N ayat_texts ayat_durations destination fs =
     (if \<not> (length ayat_durations = length ayat_texts)
      then (Inl (PyException
                  (ascii ''Both ayat texts and durations arrays should be of the same size'')),
            fs)
      else (case open_w destination fs of
              Inl e \<Rightarrow> (Inl e, fs)
            | Inr fs1 \<Rightarrow>
                caption_loop N ayat_texts ayat_durations destination
                  [0..<length ayat_durations] (num_zero N) fs1))"

section \<open>Notions used to state the properties\<close>

text \<open>
  The entries that the two listing loops build for position \<open>k\<close>, counted from the
  values \<open>i\<close> and \<open>base\<close> the loop was entered with. \<open>arabic\<close> keeps the editions that
  \<open>get_reciters\<close> numbers.
\<close>

definition surah_at :: "surah_ref list \<Rightarrow> int \<Rightarrow> int \<Rightarrow> nat \<Rightarrow> surah" where
  "surah_at rs i base k =
     \<lparr>surah_id = i + int k, surah_name = ref_name (rs ! k),
      aya_base = base + sum_list (map numberOfAyahs (take k rs)),
      n_aya = numberOfAyahs (rs ! k)\<rparr>"

definition arabic :: "edition list \<Rightarrow> edition list" where
  "arabic es = filter (\<lambda>e. ed_language e = ascii ''ar'') es"

definition reciter_at :: "edition list \<Rightarrow> int \<Rightarrow> nat \<Rightarrow> reciter" where
  "reciter_at es i k =
     \<lparr>reciter_id = i + int k, reciter_name = ed_name (es ! k),
      reciter_code = ed_identifier (es ! k)\<rparr>"

text \<open>The text the API holds for a verse, and the recitation built from it at position \<open>i\<close>.\<close>

definition verse_text :: "api \<Rightarrow> int \<Rightarrow> pystr" where
  "verse_text a g = (case data_text (ayah a g) of None \<Rightarrow> [] | Some t \<Rightarrow> t)"

definition recitation_at :: "api \<Rightarrow> pystr \<Rightarrow> bool \<Rightarrow> nat \<Rightarrow> int \<Rightarrow> recitation" where
  "recitation_at a reciter rb i aya =
     \<lparr>rtext = str_strip (if i = 0 \<and> rb then str_replace (verse_text a aya) bismillah []
                          else verse_text a aya),
      audio_link = audio_link_of reciter aya\<rparr>"

definition end_error :: "surah \<Rightarrow> int \<Rightarrow> error" where
  "end_error surah e =
     PyException (ascii ''Surah '' @ surah_name surah @ ascii '' only contain '' @
                  str_int (n_aya surah) @ ascii '' ayat. Aya number '' @
                  str_int e @ ascii '' was required'')"

text \<open>
  \<open>occurs old s\<close> is Python's \<open>old in s\<close>: \<open>old\<close> starts at some position of \<open>s\<close>.
  \<open>str_join sep parts\<close> is \<open>sep.join(parts)\<close>.
\<close>

fun occurs :: "'a list \<Rightarrow> 'a list \<Rightarrow> bool" where
  "occurs old [] = (old = [])"
| "occurs old (c # s) = (startswith (c # s) old \<or> occurs old s)"

fun str_join :: "'a list \<Rightarrow> 'a list list \<Rightarrow> 'a list" where
  "str_join sep [] = []"
| "str_join sep [p] = p"
| "str_join sep (p # q # ps) = p @ sep @ str_join sep (q # ps)"

text \<open>
  The path of the \<open>i\<close>-th download, and what it means that a sequence of
  \<open>download_file\<close> calls, run one after the other from the state \<open>w\<close>, all succeed.
\<close>

definition recitation_path :: "pystr \<Rightarrow> nat \<Rightarrow> pystr" where
  "recitation_path destination i =
     os_path_join destination (ascii ''recitation_'' @ str_int (int i) @ ascii ''.mp3'')"

fun downloads_succeed :: "'w os \<Rightarrow> (pystr \<times> pystr) list \<Rightarrow> 'w \<Rightarrow> bool" where
  "downloads_succeed os [] w = True"
| "downloads_succeed os ((link, path) # calls) w =
     (fst (download_file os link path w) \<and>
      downloads_succeed os calls (snd (download_file os link path w)))"

text \<open>
  The sum of \<open>durations[0..i-1]\<close>, added from the left starting at the accumulator's
  initial value, as Python's \<open>sum\<close> and the loop both do.
\<close>

definition cumulative :: "'n pynum \<Rightarrow> 'n list \<Rightarrow> nat \<Rightarrow> 'n" where
  "cumulative N ds i = foldl (num_add N) (num_zero N) (take i ds)"

definition caption_line :: "'n pynum \<Rightarrow> pystr list \<Rightarrow> 'n list \<Rightarrow> nat \<Rightarrow> pystr" where
  "caption_line N texts ds i =
     ascii (num_str N (cumulative N ds i)) @ ascii '':'' @
     ascii (num_str N (num_add N (cumulative N ds i) (ds ! i))) @ ascii '':'' @
     texts ! i @ [10]"

section \<open>Sample data\<close>

text \<open>
  A small catalogue to run the functions on: one English and one Arabic edition, three
  surahs, and verse texts for the global verses 1 to 11. Verse 1 is the phrase followed by
  a newline, as in the example of the docstring of \<open>get_recitations\<close>; verse 8 holds the
  phrase twice.
\<close>

definition refs3 :: "surah_ref list" where
  "refs3 = [\<lparr>ref_name = ascii ''Al-Faatiha'', numberOfAyahs = 7\<rparr>,
            \<lparr>ref_name = ascii ''Al-Baqara'', numberOfAyahs = 286\<rparr>,
            \<lparr>ref_name = ascii ''Aal-i-Imraan'', numberOfAyahs = 200\<rparr>]"

definition api_sample :: api where
  "api_sample =
     \<lparr>editions =
        [\<lparr>ed_language = ascii ''en'', ed_name = ascii ''Ibrahim Walk'',
          ed_identifier = ascii ''en.walk''\<rparr>,
         \<lparr>ed_language = ascii ''ar'', ed_name = ascii ''Abdul Basit'',
          ed_identifier = ascii ''ar.abdulbasitmurattal''\<rparr>],
      references = refs3,
      ayah = (\<lambda>g. if g = 1 then \<lparr>status_code = 200, data_text = Some (bismillah @ [10])\<rparr>
                   else if g = 8
                   then \<lparr>status_code = 200,
                         data_text = Some (bismillah @ ascii '' alif '' @ bismillah @
                                           ascii '' lam'')\<rparr>
                   else if 1 < g \<and> g < 12
                   then \<lparr>status_code = 200, data_text = Some (ascii ''verse '' @ str_int g)\<rparr>
                   else \<lparr>status_code = 404, data_text = None\<rparr>)\<rparr>"

definition abdul_basit :: reciter where
  "abdul_basit = \<lparr>reciter_id = 1, reciter_name = ascii ''Abdul Basit'',
                   reciter_code = ascii ''ar.abdulbasitmurattal''\<rparr>"

definition fatiha :: surah where
  "fatiha = \<lparr>surah_id = 1, surah_name = ascii ''Al-Faatiha'', aya_base = 0, n_aya = 7\<rparr>"

definition baqara :: surah where
  "baqara = \<lparr>surah_id = 2, surah_name = ascii ''Al-Baqara'', aya_base = 7, n_aya = 286\<rparr>"

text \<open>
  A world in which the destination directory is missing and can be created and every
  download succeeds (the state counts the downloads); a file system with an existing
  caption file; real arithmetic with an arbitrary number format; and Python's int
  arithmetic with the decimal format of \<open>str\<close>.
\<close>

definition os_sample :: "nat os" where
  "os_sample = \<lparr>os_path_exists = (\<lambda>p w. False), os_mkdir = (\<lambda>p w. Inr w),
                download_file = (\<lambda>link path w. (True, Suc w))\<rparr>"

definition fs_sample :: filesys where
  "fs_sample = \<lparr>files = [ascii ''captions.txt'' \<mapsto> ascii ''old captions''],
                writable = (\<lambda>p. p \<noteq> [])\<rparr>"

definition real_arith :: "(real \<Rightarrow> string) \<Rightarrow> real pynum" where
  "real_arith fmt = \<lparr>num_zero = 0, num_add = (+), num_str = fmt\<rparr>"

definition int_arith :: "int pynum" where
  "int_arith = \<lparr>num_zero = 0, num_add = (+), num_str = (\<lambda>i. map char_of (str_int i))\<rparr>"

section \<open>The listings: get\_surahs and get\_reciters\<close>

lemma get_surahs_loop_eq:
  "get_surahs_loop rs i base acc = acc @ map (surah_at rs i base) [0..<length rs]"
proof (induction rs arbitrary: i base acc)
  case Nil
  show ?case by simp
next
  case (Cons r rs)
  have shift: "surah_at (r # rs) i base (Suc k) = surah_at rs (i + 1) (base + numberOfAyahs r) k"
    for k
    by (simp add: surah_at_def add.assoc)
  have first: "surah_at (r # rs) i base 0 =
      \<lparr>surah_id = i, surah_name = ref_name r, aya_base = base, n_aya = numberOfAyahs r\<rparr>"
    by (simp add: surah_at_def)
  have "map (surah_at (r # rs) i base) [0..<Suc (length rs)] =
      surah_at (r # rs) i base 0 # map (surah_at rs (i + 1) (base + numberOfAyahs r)) [0..<length rs]"
    by (simp only: map_upt_Suc shift)
  then show ?case
    by (simp add: Cons.IH first del: upt_Suc)
qed

lemma get_surahs_eq:
  "get_surahs rs = map (surah_at rs 1 0) [0..<length rs]"
  by (simp add: get_surahs_def get_surahs_loop_eq)

lemma get_surahs_member:
  "s \<in> set (get_surahs rs) \<Longrightarrow> \<exists>k < length rs. s = surah_at rs 1 0 k"
  by (auto simp: get_surahs_eq)

lemma surah_at_id: "surah_id (surah_at rs i base k) = i + int k"
  by (simp add: surah_at_def)

lemma surah_at_next:
  "k < length rs \<Longrightarrow>
   aya_base (surah_at rs i base (Suc k)) =
   aya_base (surah_at rs i base k) + n_aya (surah_at rs i base k)"
  by (simp add: surah_at_def take_Suc_conv_app_nth)

text \<open>
  Claim C7. In the list returned by \<open>get_surahs\<close> the ids are 1, 2, ... in list order, the
  surah with id 1 has \<open>aya_base\<close> 0, and the \<open>aya_base\<close> of every surah with an id above 1
  is the \<open>aya_base\<close> of the surah with the preceding id plus that surah's \<open>n_aya\<close>: the
  running sum of the preceding verse counts.
\<close>

theorem get_surahs_aya_base_running_sum:
  "map surah_id (get_surahs content) = map (\<lambda>k. 1 + int k) [0..<length content] \<and>
   (\<forall>s \<in> set (get_surahs content). surah_id s = 1 \<longrightarrow> aya_base s = 0) \<and>
   (\<forall>s \<in> set (get_surahs content). \<forall>p \<in> set (get_surahs content).
      surah_id s > 1 \<and> surah_id p = surah_id s - 1 \<longrightarrow>
      aya_base s = aya_base p + n_aya p)"
proof (intro conjI ballI impI)
  show "map surah_id (get_surahs content) = map (\<lambda>k. 1 + int k) [0..<length content]"
    by (simp add: get_surahs_eq surah_at_id)
next
  fix s
  assume "s \<in> set (get_surahs content)" and one: "surah_id s = 1"
  then obtain k where "k < length content" and s: "s = surah_at content 1 0 k"
    using get_surahs_member by blast
  from one s have "k = 0" by (simp add: surah_at_id)
  with s show "aya_base s = 0" by (simp add: surah_at_def)
next
  fix s p
  assume "s \<in> set (get_surahs content)" and "p \<in> set (get_surahs content)"
    and ids: "surah_id s > 1 \<and> surah_id p = surah_id s - 1"
  then obtain k j where k: "k < length content" and s: "s = surah_at content 1 0 k"
    and j: "j < length content" and p: "p = surah_at content 1 0 j"
    using get_surahs_member by blast
  from ids s p have "k = Suc j" by (simp add: surah_at_id)
  with s p j show "aya_base s = aya_base p + n_aya p"
    by (simp add: surah_at_next)
qed

lemma get_surahs_refs3:
  "get_surahs refs3 =
     [\<lparr>surah_id = 1, surah_name = ascii ''Al-Faatiha'', aya_base = 0, n_aya = 7\<rparr>,
      \<lparr>surah_id = 2, surah_name = ascii ''Al-Baqara'', aya_base = 7, n_aya = 286\<rparr>,
      \<lparr>surah_id = 3, surah_name = ascii ''Aal-i-Imraan'', aya_base = 293, n_aya = 200\<rparr>]"
  by (simp add: get_surahs_def refs3_def)

theorem get_surahs_aya_base_running_sum_witness:
  "(let s = get_surahs refs3 ! 2; p = get_surahs refs3 ! 1 in
      s \<in> set (get_surahs refs3) \<and> p \<in> set (get_surahs refs3) \<and>
      surah_id s > 1 \<and> surah_id p = surah_id s - 1 \<and>
      aya_base s = aya_base p + n_aya p \<and> aya_base s = 293) \<and>
   (let s = get_surahs refs3 ! 0 in
      s \<in> set (get_surahs refs3) \<and> surah_id s = 1 \<and> aya_base s = 0)"
  using get_surahs_aya_base_running_sum [of refs3]
  by (simp add: get_surahs_refs3)

lemma get_reciters_loop_eq:
  "get_reciters_loop es i acc = acc @ map (reciter_at (arabic es) i) [0..<length (arabic es)]"
proof (induction es arbitrary: i acc)
  case Nil
  show ?case by (simp add: arabic_def)
next
  case (Cons e es)
  show ?case
  proof (cases "ed_language e = ascii ''ar''")
    case True
    then have ar: "arabic (e # es) = e # arabic es"
      by (simp add: arabic_def)
    have shift: "reciter_at (e # arabic es) i (Suc k) = reciter_at (arabic es) (i + 1) k" for k
      by (simp add: reciter_at_def add.assoc)
    have first: "reciter_at (e # arabic es) i 0 =
        \<lparr>reciter_id = i, reciter_name = ed_name e, reciter_code = ed_identifier e\<rparr>"
      by (simp add: reciter_at_def)
    have "map (reciter_at (e # arabic es) i) [0..<Suc (length (arabic es))] =
        reciter_at (e # arabic es) i 0 # map (reciter_at (arabic es) (i + 1)) [0..<length (arabic es)]"
      by (simp only: map_upt_Suc shift)
    with True show ?thesis
      by (simp add: Cons.IH first ar del: upt_Suc)
  next
    case False
    then have "arabic (e # es) = arabic es"
      by (simp add: arabic_def)
    with False show ?thesis
      by (simp add: Cons.IH)
  qed
qed

lemma reciter_ids: "map reciter_id (get_reciters es) = map (\<lambda>k. 1 + int k) [0..<length (arabic es)]"
  by (simp add: get_reciters_def get_reciters_loop_eq reciter_at_def)

lemma surah_ids: "map surah_id (get_surahs rs) = map (\<lambda>k. 1 + int k) [0..<length rs]"
  by (simp add: get_surahs_eq surah_at_id)

lemma distinct_ids: "distinct (map (\<lambda>k. 1 + int k) [0..<n])"
  by (simp add: distinct_map inj_on_def)

lemma filter_unique:
  "distinct (map f xs) \<Longrightarrow> x \<in> set xs \<Longrightarrow> filter (\<lambda>y. f y = f x) xs = [x]"
proof (induction xs)
  case Nil
  then show ?case by simp
next
  case (Cons y ys)
  show ?case
  proof (cases "x = y")
    case True
    from Cons.prems have "f y \<notin> f ` set ys" by simp
    then have "\<forall>z \<in> set ys. f z \<noteq> f y"
      by (metis imageI)
    then have "filter (\<lambda>z. f z = f y) ys = []"
      by (simp add: filter_empty_conv)
    with True show ?thesis by simp
  next
    case False
    with Cons.prems have "x \<in> set ys" and "f y \<noteq> f x" by auto
    with Cons show ?thesis by simp
  qed
qed

lemma reciter_lookup:
  assumes "r \<in> set (get_reciters es)"
  shows "filter (\<lambda>y. reciter_id y = reciter_id r) (get_reciters es) = [r]"
  using assms by (intro filter_unique) (simp_all add: reciter_ids distinct_ids)

lemma surah_lookup:
  assumes "s \<in> set (get_surahs rs)"
  shows "filter (\<lambda>y. surah_id y = surah_id s) (get_surahs rs) = [s]"
  using assms by (intro filter_unique) (simp_all add: surah_ids distinct_ids)

lemma map_add_upto: "map (\<lambda>n. n + b) [i..j] = [i + b..j + (b::int)]"
proof (induction i j rule: upto.induct)
  case (1 i j)
  show ?case
  proof (cases "i \<le> j")
    case True
    then have "[i..j] = i # [i + 1..j]" and "[i + b..j + b] = (i + b) # [i + b + 1..j + b]"
      by (simp_all add: upto_rec1)
    with True 1 show ?thesis by (simp add: add.commute add.left_commute)
  next
    case False
    then show ?thesis by simp
  qed
qed

section \<open>Properties of get\_recitations\<close>

lemma fetch_ayat_ok:
  "\<forall>g \<in> set ayat. status_code (ayah a g) = 200 \<and> data_text (ayah a g) \<noteq> None \<Longrightarrow>
   fetch_ayat a reciter rb i ayat acc =
     Inr (acc @ map (\<lambda>k. recitation_at a reciter rb (i + k) (ayat ! k)) [0..<length ayat])"
proof (induction ayat arbitrary: i acc)
  case Nil
  show ?case by simp
next
  case (Cons aya rest)
  from Cons.prems obtain t where ok: "status_code (ayah a aya) = 200"
    and t: "data_text (ayah a aya) = Some t"
    by auto
  from Cons.prems have rest: "\<forall>g \<in> set rest. status_code (ayah a g) = 200 \<and> data_text (ayah a g) \<noteq> None"
    by simp
  have step: "fetch_ayat a reciter rb i (aya # rest) acc =
      fetch_ayat a reciter rb (i + 1) rest (acc @ [recitation_at a reciter rb i aya])"
    using ok t by (simp add: recitation_at_def verse_text_def Let_def)
  have "map (\<lambda>k. recitation_at a reciter rb (i + k) ((aya # rest) ! k)) [0..<Suc (length rest)] =
      recitation_at a reciter rb i aya #
      map (\<lambda>k. recitation_at a reciter rb (i + 1 + k) (rest ! k)) [0..<length rest]"
    by (simp only: map_upt_Suc) simp
  then show ?case
    by (simp add: step Cons.IH [OF rest] del: upt_Suc fetch_ayat.simps)
qed

lemma fetch_ayat_no_PyException:
  "fetch_ayat a reciter rb i ayat acc \<noteq> Inl (PyException m)"
proof (induction ayat arbitrary: i acc)
  case Nil
  show ?case by simp
next
  case (Cons aya rest)
  then show ?case
    by (simp add: Let_def split: option.splits)
qed

lemma get_recitations_known:
  assumes r: "r \<in> set (get_reciters (editions a))" "reciter_id r = reciter_number"
      "reciter_code r \<noteq> []"
    and s: "s \<in> set (get_surahs (references a))" "surah_id s = surah_number"
  shows "get_recitations a reciter_number surah_number start end =
     (if end > n_aya s then Inl (end_error s end)
      else if start < 1 then Inl (PyException (ascii ''start can't be less than one''))
      else if end < start then Inl (PyException (ascii ''end can't be less than start''))
      else fetch_ayat a (reciter_code r) (remove_bismillah s start) 0
             (map (\<lambda>n. n + aya_base s) [start..end]) [])"
proof -
  have 1: "filter (\<lambda>y. reciter_id y = reciter_number) (get_reciters (editions a)) = [r]"
    using reciter_lookup [OF r(1)] r(2) by simp
  have 2: "filter (\<lambda>y. surah_id y = surah_number) (get_surahs (references a)) = [s]"
    using surah_lookup [OF s(1)] s(2) by simp
  have 3: "surah_number \<in> surah_id ` set (get_surahs (references a))"
    using s by auto
  show ?thesis
    unfolding get_recitations_def Let_def 1 2
    using r(3) 3 by (simp add: end_error_def)
qed

text \<open>
  Claim C3. When the reciter id belongs to a listed reciter (whose code is not empty) and
  the surah id to a listed surah, \<open>get_recitations\<close> checks \<open>end \<le> n_aya\<close>, then
  \<open>start \<ge> 1\<close>, then \<open>start \<le> end\<close>, and raises the error of the first check that
  fails: the message of the first names the surah, its verse count and the requested end.
  When all three hold, no such error is raised.
\<close>

theorem get_recitations_range_checks:
  assumes "r \<in> set (get_reciters (editions a))" and "reciter_id r = reciter_number"
    and "reciter_code r \<noteq> []"
    and "s \<in> set (get_surahs (references a))" and "surah_id s = surah_number"
  shows "(end > n_aya s \<longrightarrow>
            get_recitations a reciter_number surah_number start end =
              Inl (PyException
                     (ascii ''Surah '' @ surah_name s @ ascii '' only contain '' @
                      str_int (n_aya s) @ ascii '' ayat. Aya number '' @ str_int end @
                      ascii '' was required''))) \<and>
         (end \<le> n_aya s \<and> start < 1 \<longrightarrow>
            get_recitations a reciter_number surah_number start end =
              Inl (PyException (ascii ''start can't be less than one''))) \<and>
         (end \<le> n_aya s \<and> 1 \<le> start \<and> end < start \<longrightarrow>
            get_recitations a reciter_number surah_number start end =
              Inl (PyException (ascii ''end can't be less than start''))) \<and>
         (end \<le> n_aya s \<and> 1 \<le> start \<and> start \<le> end \<longrightarrow>
            (\<forall>m. get_recitations a reciter_number surah_number start end \<noteq>
                   Inl (PyException m)))"
  unfolding get_recitations_known [OF assms]
  by (simp add: end_error_def fetch_ayat_no_PyException)

lemma get_reciters_sample: "get_reciters (editions api_sample) = [abdul_basit]"
  by (simp add: get_reciters_def api_sample_def abdul_basit_def ascii_def)

lemma get_surahs_sample:
  "fatiha \<in> set (get_surahs (references api_sample))"
  "baqara \<in> set (get_surahs (references api_sample))"
  by (simp_all add: api_sample_def get_surahs_refs3 fatiha_def baqara_def)

text \<open>
  The checks on surah 1 of the sample with its 7 verses: end 8 fails, also together with
  start 0; start 0 fails; start 5 with end 3 fails; the range 1 to 2 passes.
\<close>

theorem get_recitations_range_checks_witness:
  "abdul_basit \<in> set (get_reciters (editions api_sample)) \<and> reciter_id abdul_basit = 1 \<and>
   reciter_code abdul_basit \<noteq> [] \<and>
   fatiha \<in> set (get_surahs (references api_sample)) \<and> surah_id fatiha = 1 \<and>
   n_aya fatiha = 7 \<and>
   get_recitations api_sample 1 1 1 8 =
     Inl (PyException (ascii ''Surah Al-Faatiha only contain 7 ayat. Aya number 8 was required'')) \<and>
   get_recitations api_sample 1 1 0 8 =
     Inl (PyException (ascii ''Surah Al-Faatiha only contain 7 ayat. Aya number 8 was required'')) \<and>
   get_recitations api_sample 1 1 0 7 =
     Inl (PyException (ascii ''start can't be less than one'')) \<and>
   get_recitations api_sample 1 1 5 3 =
     Inl (PyException (ascii ''end can't be less than start'')) \<and>
   (\<forall>m. get_recitations api_sample 1 1 1 2 \<noteq> Inl (PyException m))"
proof -
  have r: "abdul_basit \<in> set (get_reciters (editions api_sample))"
    by (simp add: get_reciters_sample)
  have rid: "reciter_id abdul_basit = 1" and code: "reciter_code abdul_basit \<noteq> []"
    by (simp_all add: abdul_basit_def ascii_def)
  have s: "fatiha \<in> set (get_surahs (references api_sample))"
    by (rule get_surahs_sample)
  have sid: "surah_id fatiha = 1" and n: "n_aya fatiha = 7"
    and name: "surah_name fatiha = ascii ''Al-Faatiha''"
    by (simp_all add: fatiha_def)
  have str: "str_int 7 = ascii ''7''" "str_int 8 = ascii ''8''"
    by (simp_all add: str_int_def digits.simps ascii_def)
  note checks = get_recitations_range_checks [OF r rid code s sid]
  show ?thesis
    using checks [of 8 1] checks [of 8 0] checks [of 7 0] checks [of 3 5] checks [of 2 1]
    by (simp add: r rid code s sid n name str ascii_def)
qed

lemma remove_bismillah_iff: "remove_bismillah s start = (start = 1)"
  by (simp add: remove_bismillah_def dict_eq_int_def)

lemma get_recitations_run:
  assumes "r \<in> set (get_reciters (editions a))" and "reciter_id r = reciter_number"
    and "reciter_code r \<noteq> []"
    and "s \<in> set (get_surahs (references a))" and "surah_id s = surah_number"
    and "1 \<le> start" and "start \<le> end" and "end \<le> n_aya s"
    and "\<forall>g \<in> set [start + aya_base s..end + aya_base s].
           status_code (ayah a g) = 200 \<and> data_text (ayah a g) \<noteq> None"
  shows "get_recitations a reciter_number surah_number start end =
     Inr (map (\<lambda>k. recitation_at a (reciter_code r) (remove_bismillah s start) k
                      ([start + aya_base s..end + aya_base s] ! k))
              [0..<length [start + aya_base s..end + aya_base s]])"
  using assms(6-8)
    fetch_ayat_ok [OF assms(9), of "reciter_code r" "remove_bismillah s start" 0 "[]"]
  by (simp add: get_recitations_known [OF assms(1-5)] map_add_upto)

text \<open>
  Claim C4. For a listed reciter and surah, a range with \<open>1 \<le> start \<le> end \<le> n_aya\<close>
  and verse texts that can all be fetched, \<open>get_recitations\<close> returns \<open>end - start + 1\<close>
  recitations. Their audio links are the CDN address with the reciter code and the global
  verse numbers \<open>start + aya_base, ..., end + aya_base\<close> in ascending order, and the text
  at position \<open>k\<close> is the stripped text of global verse \<open>start + k + aya_base\<close> (with the
  phrase replaced at position 0 when \<open>start = 1\<close>).
\<close>

theorem get_recitations_valid_range:
  assumes "r \<in> set (get_reciters (editions a))" and "reciter_id r = reciter_number"
    and "reciter_code r \<noteq> []"
    and "s \<in> set (get_surahs (references a))" and "surah_id s = surah_number"
    and "1 \<le> start" and "start \<le> end" and "end \<le> n_aya s"
    and "\<forall>g \<in> set [start + aya_base s..end + aya_base s].
           status_code (ayah a g) = 200 \<and> data_text (ayah a g) \<noteq> None"
  shows "\<exists>rs. get_recitations a reciter_number surah_number start end = Inr rs \<and>
           length rs = nat (end - start + 1) \<and>
           map audio_link rs =
             map (\<lambda>g. ascii ''https://cdn.islamic.network/quran/audio/192/'' @
                       reciter_code r @ ascii ''/'' @ str_int g @ ascii ''.mp3'')
                 [start + aya_base s..end + aya_base s] \<and>
           (\<forall>k < length rs. \<exists>t.
              data_text (ayah a (start + int k + aya_base s)) = Some t \<and>
              rtext (rs ! k) =
                str_strip (if k = 0 \<and> start = 1 then str_replace t bismillah [] else t))"
proof -
  let ?ayat = "[start + aya_base s..end + aya_base s]"
  let ?rs = "map (\<lambda>k. recitation_at a (reciter_code r) (remove_bismillah s start) k (?ayat ! k))
               [0..<length ?ayat]"
  have run: "get_recitations a reciter_number surah_number start end = Inr ?rs"
    by (rule get_recitations_run [OF assms])
  have len: "length ?rs = nat (end - start + 1)"
    by simp
  have links: "map audio_link ?rs =
      map (\<lambda>g. ascii ''https://cdn.islamic.network/quran/audio/192/'' @
                reciter_code r @ ascii ''/'' @ str_int g @ ascii ''.mp3'') ?ayat"
    by (rule nth_equalityI) (simp_all add: recitation_at_def audio_link_of_def)
  have texts: "\<exists>t. data_text (ayah a (start + int k + aya_base s)) = Some t \<and>
      rtext (?rs ! k) = str_strip (if k = 0 \<and> start = 1 then str_replace t bismillah [] else t)"
    if k: "k < length ?rs" for k
  proof -
    from k have le: "start + aya_base s + int k \<le> end + aya_base s"
      by simp
    then have nth: "?ayat ! k = start + int k + aya_base s"
      by (simp add: nth_upto)
    from le have "start + int k + aya_base s \<in> set ?ayat"
      by simp
    with assms(9) have "data_text (ayah a (start + int k + aya_base s)) \<noteq> None"
      by blast
    then obtain t where t: "data_text (ayah a (start + int k + aya_base s)) = Some t"
      by blast
    then have vt: "verse_text a (start + int k + aya_base s) = t"
      by (simp add: verse_text_def)
    from k have "rtext (?rs ! k) =
        str_strip (if k = 0 \<and> remove_bismillah s start
                   then str_replace (verse_text a (?ayat ! k)) bismillah []
                   else verse_text a (?ayat ! k))"
      by (simp add: recitation_at_def)
    then have "rtext (?rs ! k) =
        str_strip (if k = 0 \<and> start = 1 then str_replace t bismillah [] else t)"
      unfolding nth vt remove_bismillah_iff .
    with t show ?thesis
      by blast
  qed
  from run len links texts show ?thesis
    by blast
qed

text \<open>
  Verses 1 and 2 of surah 2 of the sample are the global verses 8 and 9.
\<close>

theorem get_recitations_valid_range_witness:
  "abdul_basit \<in> set (get_reciters (editions api_sample)) \<and> reciter_id abdul_basit = 1 \<and>
   reciter_code abdul_basit \<noteq> [] \<and>
   baqara \<in> set (get_surahs (references api_sample)) \<and> surah_id baqara = 2 \<and>
   (1::int) \<le> 1 \<and> (1::int) \<le> 2 \<and> 2 \<le> n_aya baqara \<and>
   [1 + aya_base baqara..2 + aya_base baqara] = [8, 9] \<and>
   status_code (ayah api_sample 8) = 200 \<and> data_text (ayah api_sample 8) \<noteq> None \<and>
   status_code (ayah api_sample 9) = 200 \<and> data_text (ayah api_sample 9) \<noteq> None \<and>
   (\<exists>rs. get_recitations api_sample 1 2 1 2 = Inr rs \<and> length rs = 2 \<and>
      map audio_link rs =
        [ascii ''https://cdn.islamic.network/quran/audio/192/ar.abdulbasitmurattal/8.mp3'',
         ascii ''https://cdn.islamic.network/quran/audio/192/ar.abdulbasitmurattal/9.mp3''])"
proof -
  have r: "abdul_basit \<in> set (get_reciters (editions api_sample))"
    by (simp add: get_reciters_sample)
  have rid: "reciter_id abdul_basit = 1" and code: "reciter_code abdul_basit \<noteq> []"
    and code_eq: "reciter_code abdul_basit = ascii ''ar.abdulbasitmurattal''"
    by (simp_all add: abdul_basit_def ascii_def)
  have s: "baqara \<in> set (get_surahs (references api_sample))"
    by (rule get_surahs_sample)
  have sid: "surah_id baqara = 2" and n: "2 \<le> n_aya baqara" and base: "aya_base baqara = 7"
    by (simp_all add: baqara_def)
  have fetch: "\<forall>g \<in> set [1 + aya_base baqara..2 + aya_base baqara].
      status_code (ayah api_sample g) = 200 \<and> data_text (ayah api_sample g) \<noteq> None"
    by (simp add: base api_sample_def)
  have str: "str_int 8 = ascii ''8''" "str_int 9 = ascii ''9''"
    by (simp_all add: str_int_def digits.simps ascii_def)
  have "\<exists>rs. get_recitations api_sample 1 2 1 2 = Inr rs \<and> length rs = 2 \<and>
      map audio_link rs =
        [ascii ''https://cdn.islamic.network/quran/audio/192/ar.abdulbasitmurattal/8.mp3'',
         ascii ''https://cdn.islamic.network/quran/audio/192/ar.abdulbasitmurattal/9.mp3'']"
    using get_recitations_valid_range [OF r rid code s sid _ _ n fetch]
    by (auto simp: base str code_eq ascii_def)
  moreover have "[1 + aya_base baqara..2 + aya_base baqara] = [8, 9]"
    and "status_code (ayah api_sample 8) = 200" and "data_text (ayah api_sample 8) \<noteq> None"
    and "status_code (ayah api_sample 9) = 200" and "data_text (ayah api_sample 9) \<noteq> None"
    by (simp_all add: base api_sample_def)
  ultimately show ?thesis
    using r rid code s sid n by simp
qed

text \<open>
  Claim C2. A reciter id that no listed reciter carries leaves the list comprehension of
  line 92 empty, and taking its element 0 raises \<open>IndexError\<close> before the test that would
  raise \<open>FetchError\<close> is reached. The sample lists one reciter, with id 1.
\<close>

theorem get_recitations_unlisted_reciter:
  "map reciter_id (get_reciters (editions api_sample)) = [1] \<and>
   get_recitations api_sample 7 1 1 1 = Inl IndexError"
  by (simp add: get_reciters_sample abdul_basit_def get_recitations_def)

lemma get_recitations_no_reciter:
  "reciter_number \<notin> reciter_id ` set (get_reciters (editions a)) \<Longrightarrow>
   get_recitations a reciter_number surah_number start end = Inl IndexError"
proof -
  assume "reciter_number \<notin> reciter_id ` set (get_reciters (editions a))"
  then have "\<forall>r \<in> set (get_reciters (editions a)). reciter_id r \<noteq> reciter_number"
    by (metis imageI)
  then have "filter (\<lambda>r. reciter_id r = reciter_number) (get_reciters (editions a)) = []"
    by (simp add: filter_empty_conv)
  then show ?thesis
    by (simp add: get_recitations_def)
qed

section \<open>The replacement of the phrase\<close>

lemma replace_scan_at_match:
  assumes "old \<noteq> []"
  shows "replace_scan (old @ rest) old new = new @ replace_scan rest old new"
proof -
  from assms obtain x xs where old: "old = x # xs"
    by (cases old) auto
  have "startswith ((x # xs) @ rest) (x # xs)"
    by (simp add: startswith_def)
  then have "replace_scan ((x # xs) @ rest) (x # xs) new =
      new @ replace_scan (drop (length (x # xs)) ((x # xs) @ rest)) (x # xs) new"
    by simp
  then show ?thesis
    by (simp add: old)
qed

lemma no_match_across:
  assumes old: "old \<noteq> []" and hd: "hd old \<notin> set (tl old)"
    and p: "p \<noteq> []" and no: "\<not> startswith p old"
  shows "\<not> startswith (p @ old @ rest) old"
proof
  assume "startswith (p @ old @ rest) old"
  then have eq: "take (length old) (p @ old @ rest) = old"
    by (simp add: startswith_def)
  show False
  proof (cases "length old \<le> length p")
    case True
    with eq have "take (length old) p = old" by simp
    with no show False by (simp add: startswith_def)
  next
    case False
    define m where "m = length old - length p"
    from p have "0 < length p" by simp
    with False have m: "0 < m" "m < length old"
      unfolding m_def by arith+
    from eq False have split: "old = p @ take m old"
      by (simp add: m_def)
    from m old have "take m old \<noteq> []" by auto
    moreover from m old have "hd (take m old) = hd old"
      by (cases old) (auto simp: take_Cons')
    ultimately have "hd old \<in> set (take m old)"
      by (metis hd_in_set)
    moreover from p have "tl old = tl p @ take m old"
      by (subst split) simp
    ultimately have "hd old \<in> set (tl old)"
      by (metis Un_iff set_append)
    with hd show False by simp
  qed
qed

lemma replace_scan_skip:
  assumes "old \<noteq> []" and "hd old \<notin> set (tl old)" and "\<not> occurs old p"
  shows "replace_scan (p @ old @ rest) old new = p @ new @ replace_scan rest old new"
  using assms(3)
proof (induction p)
  case Nil
  show ?case
    using assms(1) by (simp add: replace_scan_at_match)
next
  case (Cons c p)
  then have no: "\<not> startswith (c # p) old" and rest: "\<not> occurs old p"
    by simp_all
  have "\<not> startswith ((c # p) @ old @ rest) old"
    using assms(1,2) no by (intro no_match_across) simp_all
  then have "replace_scan ((c # p) @ old @ rest) old new =
      c # replace_scan (p @ old @ rest) old new"
    by simp
  with Cons.IH [OF rest] show ?case
    by simp
qed

lemma replace_scan_no_occurrence:
  "\<not> occurs old s \<Longrightarrow> replace_scan s old new = s"
  by (induction s) simp_all

lemma replace_scan_join:
  "old \<noteq> [] \<Longrightarrow> hd old \<notin> set (tl old) \<Longrightarrow> \<forall>p \<in> set parts. \<not> occurs old p \<Longrightarrow>
   replace_scan (str_join old parts) old new = str_join new parts"
proof (induction old parts rule: str_join.induct)
  case (1 sep)
  show ?case by simp
next
  case (2 sep p)
  then show ?case by (simp add: replace_scan_no_occurrence)
next
  case (3 sep p q ps)
  then show ?case
    by (simp add: replace_scan_skip)
qed

lemma str_join_Nil: "str_join [] parts = concat parts"
  by (induction "[] :: 'a list" parts rule: str_join.induct) simp_all

lemma bismillah_head: "bismillah \<noteq> []" "hd bismillah \<notin> set (tl bismillah)"
  by (simp_all add: bismillah_def)

lemma remove_all_bismillah:
  "\<forall>p \<in> set parts. \<not> occurs bismillah p \<Longrightarrow>
   str_replace (str_join bismillah parts) bismillah [] = concat parts"
  by (simp add: str_replace_def bismillah_head replace_scan_join str_join_Nil)

lemma startswith_append:
  "startswith s old \<Longrightarrow> startswith (s @ t) old"
proof -
  assume "startswith s old"
  then have eq: "take (length old) s = old"
    by (simp add: startswith_def)
  then have "length (take (length old) s) = length old"
    by simp
  then have "length old \<le> length s"
    by simp
  with eq show ?thesis
    by (simp add: startswith_def)
qed

lemma first_occurrence:
  "old \<noteq> [] \<Longrightarrow> occurs old s \<Longrightarrow> \<exists>p rest. s = p @ old @ rest \<and> \<not> occurs old p"
proof (induction s)
  case Nil
  then show ?case by simp
next
  case (Cons c s)
  show ?case
  proof (cases "startswith (c # s) old")
    case True
    then have "c # s = [] @ old @ drop (length old) (c # s)"
      by (simp add: startswith_def) (metis append_take_drop_id)
    moreover from Cons.prems(1) have "\<not> occurs old []"
      by simp
    ultimately show ?thesis
      by blast
  next
    case False
    with Cons.prems have "occurs old s"
      by simp
    from Cons.IH [OF Cons.prems(1) this] obtain p rest
      where s: "s = p @ old @ rest" and free: "\<not> occurs old p"
      by blast
    have "\<not> startswith (c # p) old"
    proof
      assume "startswith (c # p) old"
      then have "startswith ((c # p) @ old @ rest) old"
        by (rule startswith_append)
      with False s show False by simp
    qed
    with free have "\<not> occurs old (c # p)"
      by simp
    moreover from s have "c # s = (c # p) @ old @ rest"
      by simp
    ultimately show ?thesis
      by blast
  qed
qed

lemma split_at_occurrences:
  assumes "old \<noteq> []"
  shows "\<exists>parts. parts \<noteq> [] \<and> s = str_join old parts \<and> (\<forall>p \<in> set parts. \<not> occurs old p)"
proof (induction s rule: length_induct)
  case (1 s)
  show ?case
  proof (cases "occurs old s")
    case False
    then have "[s] \<noteq> [] \<and> s = str_join old [s] \<and> (\<forall>p \<in> set [s]. \<not> occurs old p)"
      by simp
    then show ?thesis
      by blast
  next
    case True
    from first_occurrence [OF assms True] obtain p rest
      where s: "s = p @ old @ rest" and free: "\<not> occurs old p"
      by blast
    from s assms have "length rest < length s"
      by simp
    with 1 obtain parts where parts: "parts \<noteq> []" "rest = str_join old parts"
      "\<forall>q \<in> set parts. \<not> occurs old q"
      by blast
    from parts(1) obtain q qs where "parts = q # qs"
      by (cases parts) auto
    with parts s free
    have "p # parts \<noteq> [] \<and> s = str_join old (p # parts) \<and>
        (\<forall>x \<in> set (p # parts). \<not> occurs old x)"
      by simp
    then show ?thesis
      by blast
  qed
qed

lemma fetch_ayat_extends:
  "fetch_ayat a reciter rb i ayat acc = Inr rs \<Longrightarrow> \<exists>more. rs = acc @ more"
proof (induction ayat arbitrary: i acc)
  case Nil
  then show ?case by simp
next
  case (Cons aya rest)
  from Cons.prems obtain t where
    "fetch_ayat a reciter rb (i + 1) rest
       (acc @ [\<lparr>rtext = str_strip (if i = 0 \<and> rb then str_replace t bismillah [] else t),
                 audio_link = audio_link_of reciter aya\<rparr>]) = Inr rs"
    by (auto simp: Let_def split: if_splits option.splits)
  from Cons.IH [OF this] show ?case
    by auto
qed

lemma fetch_ayat_first:
  assumes "fetch_ayat a reciter rb 0 (aya # rest) [] = Inr rs"
    and "data_text (ayah a aya) = Some t"
  shows "rs \<noteq> [] \<and> rtext (hd rs) = str_strip (if rb then str_replace t bismillah [] else t)"
proof -
  let ?first = "\<lparr>rtext = str_strip (if rb then str_replace t bismillah [] else t),
                  audio_link = audio_link_of reciter aya\<rparr>"
  from assms have "fetch_ayat a reciter rb 1 rest ([] @ [?first]) = Inr rs"
    by (auto simp: Let_def split: if_splits)
  from fetch_ayat_extends [OF this] obtain more where "rs = ?first # more"
    by auto
  then show ?thesis
    by simp
qed

text \<open>The sample runs behind the concrete instances below.\<close>

lemma sample_parts:
  "\<forall>p \<in> set [[], [10]]. \<not> occurs bismillah p"
  "\<forall>p \<in> set [[], ascii '' alif '', ascii '' lam'']. \<not> occurs bismillah p"
  by (simp_all add: ascii_def startswith_def bismillah_def)

lemma sample_link:
  "audio_link_of (ascii ''ar.abdulbasitmurattal'') 1 =
     ascii ''https://cdn.islamic.network/quran/audio/192/ar.abdulbasitmurattal/1.mp3''"
  "audio_link_of (ascii ''ar.abdulbasitmurattal'') 8 =
     ascii ''https://cdn.islamic.network/quran/audio/192/ar.abdulbasitmurattal/8.mp3''"
  by (simp_all add: audio_link_of_def str_int_def digits.simps ascii_def)

lemma sample_verse:
  "verse_text api_sample 1 = str_join bismillah [[], [10]]"
  "verse_text api_sample 8 = str_join bismillah [[], ascii '' alif '', ascii '' lam'']"
  by (simp_all add: verse_text_def api_sample_def)

lemma sample_recitation_1:
  "recitation_at api_sample (ascii ''ar.abdulbasitmurattal'') True 0 1 =
     \<lparr>rtext = [],
      audio_link =
        ascii ''https://cdn.islamic.network/quran/audio/192/ar.abdulbasitmurattal/1.mp3''\<rparr>"
  unfolding recitation_at_def sample_verse sample_link
  by (simp only: remove_all_bismillah [OF sample_parts(1)] simp_thms if_True)
     (simp add: str_strip_def py_isspace_def)

lemma sample_recitation_8:
  "recitation_at api_sample (ascii ''ar.abdulbasitmurattal'') True 0 8 =
     \<lparr>rtext = ascii ''alif  lam'',
      audio_link =
        ascii ''https://cdn.islamic.network/quran/audio/192/ar.abdulbasitmurattal/8.mp3''\<rparr>"
  unfolding recitation_at_def sample_verse sample_link
  by (simp only: remove_all_bismillah [OF sample_parts(2)] simp_thms if_True)
     (simp add: str_strip_def py_isspace_def ascii_def)

lemma sample_known:
  "abdul_basit \<in> set (get_reciters (editions api_sample))"
  "reciter_id abdul_basit = 1"
  "reciter_code abdul_basit \<noteq> []"
  "reciter_code abdul_basit = ascii ''ar.abdulbasitmurattal''"
  by (simp_all add: get_reciters_sample abdul_basit_def ascii_def)

lemma sample_run_fatiha:
  "get_recitations api_sample 1 1 1 1 =
     Inr [\<lparr>rtext = [],
           audio_link =
             ascii ''https://cdn.islamic.network/quran/audio/192/ar.abdulbasitmurattal/1.mp3''\<rparr>]"
proof -
  have "\<forall>g \<in> set [1 + aya_base fatiha..1 + aya_base fatiha].
      status_code (ayah api_sample g) = 200 \<and> data_text (ayah api_sample g) \<noteq> None"
    by (simp add: fatiha_def api_sample_def)
  from get_recitations_run [OF sample_known(1-3) get_surahs_sample(1) _ _ _ _ this]
  have "get_recitations api_sample 1 1 1 1 =
      Inr [recitation_at api_sample (ascii ''ar.abdulbasitmurattal'') True 0 1]"
    by (simp add: fatiha_def remove_bismillah_iff sample_known(4))
  then show ?thesis
    by (simp only: sample_recitation_1)
qed

lemma sample_run_baqara:
  "get_recitations api_sample 1 2 1 1 =
     Inr [\<lparr>rtext = ascii ''alif  lam'',
           audio_link =
             ascii ''https://cdn.islamic.network/quran/audio/192/ar.abdulbasitmurattal/8.mp3''\<rparr>]"
proof -
  have "\<forall>g \<in> set [1 + aya_base baqara..1 + aya_base baqara].
      status_code (ayah api_sample g) = 200 \<and> data_text (ayah api_sample g) \<noteq> None"
    by (simp add: baqara_def api_sample_def)
  from get_recitations_run [OF sample_known(1-3) get_surahs_sample(2) _ _ _ _ this]
  have "get_recitations api_sample 1 2 1 1 =
      Inr [recitation_at api_sample (ascii ''ar.abdulbasitmurattal'') True 0 8]"
    by (simp add: baqara_def remove_bismillah_iff sample_known(4))
  then show ?thesis
    by (simp only: sample_recitation_8)
qed

text \<open>
  Claim C9. When the flag of line 113 is set, the replacement on the first verse removes
  every occurrence of the phrase, wherever it stands. The fetched text can always be cut
  at the occurrences of the phrase into pieces free of it, and however it is so cut, the
  recitation's text is the pieces put together without the phrase, stripped.
\<close>

theorem bismillah_removed_everywhere:
  assumes "get_recitations a reciter_number surah_number start end = Inr rs"
    and "s \<in> set (get_surahs (references a))" and "surah_id s = surah_number"
    and "remove_bismillah s start"
    and "data_text (ayah a (start + aya_base s)) = Some t"
  shows "rs \<noteq> [] \<and>
         (\<exists>parts. t = str_join bismillah parts \<and> (\<forall>p \<in> set parts. \<not> occurs bismillah p)) \<and>
         (\<forall>parts. t = str_join bismillah parts \<and> (\<forall>p \<in> set parts. \<not> occurs bismillah p) \<longrightarrow>
                  rtext (hd rs) = str_strip (concat parts))"
proof -
  have look: "filter (\<lambda>y. surah_id y = surah_number) (get_surahs (references a)) = [s]"
    using surah_lookup [OF assms(2)] assms(3) by simp
  from assms(1) obtain reciter where
    run: "fetch_ayat a reciter (remove_bismillah s start) 0
            (map (\<lambda>n. n + aya_base s) [start..end]) [] = Inr rs"
    and le: "start \<le> end"
    unfolding get_recitations_def Let_def look
    by (auto split: list.splits if_splits)
  from le have "[start..end] = start # [start + 1..end]"
    by (rule upto_rec1)
  with run assms(4) have "fetch_ayat a reciter True 0
      ((start + aya_base s) # map (\<lambda>n. n + aya_base s) [start + 1..end]) [] = Inr rs"
    by simp
  from fetch_ayat_first [OF this assms(5)]
  have first: "rs \<noteq> []" "rtext (hd rs) = str_strip (str_replace t bismillah [])"
    by simp_all
  have split: "\<exists>parts. t = str_join bismillah parts \<and> (\<forall>p \<in> set parts. \<not> occurs bismillah p)"
    using split_at_occurrences [OF bismillah_head(1), of t] by blast
  have "rtext (hd rs) = str_strip (concat parts)"
    if "t = str_join bismillah parts \<and> (\<forall>p \<in> set parts. \<not> occurs bismillah p)" for parts
    using that first(2) by (simp add: remove_all_bismillah)
  with first(1) split show ?thesis
    by blast
qed

text \<open>
  Verse 1 of surah 2 of the sample holds the phrase at its start and again in the middle;
  both are gone from the result.
\<close>

theorem bismillah_removed_everywhere_witness:
  "get_recitations api_sample 1 2 1 1 =
     Inr [\<lparr>rtext = ascii ''alif  lam'',
           audio_link =
             ascii ''https://cdn.islamic.network/quran/audio/192/ar.abdulbasitmurattal/8.mp3''\<rparr>] \<and>
   baqara \<in> set (get_surahs (references api_sample)) \<and> surah_id baqara = 2 \<and>
   remove_bismillah baqara 1 \<and>
   data_text (ayah api_sample (1 + aya_base baqara)) =
     Some (str_join bismillah [[], ascii '' alif '', ascii '' lam'']) \<and>
   \<not> occurs bismillah [] \<and> \<not> occurs bismillah (ascii '' alif '') \<and>
   \<not> occurs bismillah (ascii '' lam'') \<and>
   str_strip (concat [[], ascii '' alif '', ascii '' lam'']) = ascii ''alif  lam''"
proof -
  let ?rs = "[\<lparr>rtext = ascii ''alif  lam'',
           audio_link =
             ascii ''https://cdn.islamic.network/quran/audio/192/ar.abdulbasitmurattal/8.mp3''\<rparr>]"
  let ?parts = "[[], ascii '' alif '', ascii '' lam'']"
  have run: "get_recitations api_sample 1 2 1 1 = Inr ?rs"
    by (rule sample_run_baqara)
  have s: "baqara \<in> set (get_surahs (references api_sample))"
    by (rule get_surahs_sample)
  have sid: "surah_id baqara = 2"
    by (simp add: baqara_def)
  have flag: "remove_bismillah baqara 1"
    by (simp add: remove_bismillah_iff)
  have body: "data_text (ayah api_sample (1 + aya_base baqara)) = Some (str_join bismillah ?parts)"
    by (simp add: baqara_def api_sample_def)
  have parts: "\<forall>p \<in> set ?parts. \<not> occurs bismillah p"
    by (rule sample_parts)
  from bismillah_removed_everywhere [OF run s sid flag body]
  have "\<forall>parts. str_join bismillah ?parts = str_join bismillah parts \<and>
      (\<forall>p \<in> set parts. \<not> occurs bismillah p) \<longrightarrow>
      rtext (hd ?rs) = str_strip (concat parts)"
    by blast
  with parts have "rtext (hd ?rs) = str_strip (concat ?parts)"
    by blast
  then have "str_strip (concat ?parts) = ascii ''alif  lam''"
    by simp
  moreover from parts have "\<not> occurs bismillah []"
    and "\<not> occurs bismillah (ascii '' alif '')" and "\<not> occurs bismillah (ascii '' lam'')"
    by simp_all
  ultimately show ?thesis
    using run s sid flag body by (intro conjI)
qed

text \<open>
  Claim C1. Line 113 tests \<open>surah\<close>, the dictionary, against 1, so the flag is set
  whenever \<open>start\<close> is 1, for surah 1 too. On the sample, verse 1 of surah 1 is the phrase
  followed by a newline; requested as the range 1 to 1 of surah 1 it comes back empty.
\<close>

theorem get_recitations_strips_surah_one:
  "surah_id fatiha = 1 \<and> remove_bismillah fatiha 1 \<and>
   data_text (ayah api_sample 1) = Some (bismillah @ [10]) \<and>
   get_recitations api_sample 1 1 1 1 =
     Inr [\<lparr>rtext = [],
           audio_link =
             ascii ''https://cdn.islamic.network/quran/audio/192/ar.abdulbasitmurattal/1.mp3''\<rparr>]"
  using sample_run_fatiha
  by (simp add: fatiha_def remove_bismillah_iff api_sample_def)

section \<open>Properties of download\_recitations\<close>

lemma download_loop_eq:
  "downloads_succeed os (zip links (map (recitation_path dest) [i..<i + length links])) w \<Longrightarrow>
   fst (download_loop os dest i links acc w) =
     Inr (acc @ map (recitation_path dest) [i..<i + length links])"
proof (induction links arbitrary: i acc w)
  case Nil
  show ?case by simp
next
  case (Cons link links)
  have upt: "[i..<i + length (link # links)] = i # [Suc i..<Suc i + length links]"
    by (simp add: upt_rec)
  from Cons.prems have ok: "fst (download_file os link (recitation_path dest i) w)"
    and rest: "downloads_succeed os
        (zip links (map (recitation_path dest) [Suc i..<Suc i + length links]))
        (snd (download_file os link (recitation_path dest i) w))"
    unfolding upt by simp_all
  have "fst (download_loop os dest i (link # links) acc w) =
      fst (download_loop os dest (Suc i) links (acc @ [recitation_path dest i])
             (snd (download_file os link (recitation_path dest i) w)))"
    using ok by (cases "download_file os link (recitation_path dest i) w")
      (simp add: recitation_path_def)
  also have "\<dots> = Inr ((acc @ [recitation_path dest i]) @
      map (recitation_path dest) [Suc i..<Suc i + length links])"
    by (rule Cons.IH [OF rest])
  finally show ?case
    unfolding upt by simp
qed

lemma recitation_path_shape:
  "recitation_path dest i =
     dest @ (if dest = [] \<or> endswith dest (ascii ''/'') then [] else ascii ''/'') @
     ascii ''recitation_'' @ str_int (int i) @ ascii ''.mp3''"
  by (simp add: recitation_path_def os_path_join_def startswith_def ascii_def)

text \<open>
  Claim C8. When the destination directory exists or can be created and every download
  the function issues succeeds, \<open>download_recitations\<close> returns one path per link, in
  the order of the links: the path at position \<open>i\<close> (from 0) is the destination, a
  \<open>/\<close> where \<open>os.path.join\<close> puts one, and \<open>recitation_i.mp3\<close>.
\<close>

theorem download_recitations_paths:
  assumes "(if \<not> os_path_exists os dest w then os_mkdir os dest w else Inr w) = Inr w1"
    and "downloads_succeed os (zip links (map (recitation_path dest) [0..<length links])) w1"
  shows "\<exists>paths. fst (download_recitations os links dest w) = Inr paths \<and>
           length paths = length links \<and>
           (\<forall>i < length links.
              paths ! i =
                dest @ (if dest = [] \<or> endswith dest (ascii ''/'') then [] else ascii ''/'') @
                ascii ''recitation_'' @ str_int (int i) @ ascii ''.mp3'')"
proof -
  let ?paths = "map (recitation_path dest) [0..<length links]"
  from assms(2) have "fst (download_loop os dest 0 links [] w1) =
      Inr ([] @ map (recitation_path dest) [0..<0 + length links])"
    by (intro download_loop_eq) simp
  with assms(1) have "fst (download_recitations os links dest w) = Inr ?paths"
    by (simp add: download_recitations_def)
  moreover have "length ?paths = length links"
    by simp
  moreover have "\<forall>i < length links.
      ?paths ! i =
        dest @ (if dest = [] \<or> endswith dest (ascii ''/'') then [] else ascii ''/'') @
        ascii ''recitation_'' @ str_int (int i) @ ascii ''.mp3''"
    by (simp add: recitation_path_shape)
  ultimately show ?thesis
    by blast
qed

text \<open>
  Two links downloaded into \<open>./temp/mp3\<close>, and into \<open>./temp/mp3/\<close> as in the docstring:
  the same two paths, since the join adds the separator only where it is missing.
\<close>

theorem download_recitations_paths_witness:
  "(let links = [ascii ''https://cdn.islamic.network/quran/audio/192/ar.alafasy/8.mp3'',
                 ascii ''https://cdn.islamic.network/quran/audio/192/ar.alafasy/9.mp3''];
        paths = [ascii ''./temp/mp3/recitation_0.mp3'', ascii ''./temp/mp3/recitation_1.mp3'']
    in (if \<not> os_path_exists os_sample (ascii ''./temp/mp3'') 0
        then os_mkdir os_sample (ascii ''./temp/mp3'') 0 else Inr 0) = Inr 0 \<and>
       map (recitation_path (ascii ''./temp/mp3'')) [0..<length links] = paths \<and>
       map (recitation_path (ascii ''./temp/mp3/'')) [0..<length links] = paths \<and>
       downloads_succeed os_sample (zip links paths) 0 \<and>
       fst (download_recitations os_sample links (ascii ''./temp/mp3'') 0) = Inr paths \<and>
       fst (download_recitations os_sample links (ascii ''./temp/mp3/'') 0) = Inr paths)"
proof -
  let ?links = "[ascii ''https://cdn.islamic.network/quran/audio/192/ar.alafasy/8.mp3'',
                 ascii ''https://cdn.islamic.network/quran/audio/192/ar.alafasy/9.mp3'']"
  let ?paths = "[ascii ''./temp/mp3/recitation_0.mp3'', ascii ''./temp/mp3/recitation_1.mp3'']"
  have dir: "(if \<not> os_path_exists os_sample d 0 then os_mkdir os_sample d 0 else Inr 0) = Inr 0"
    for d
    by (simp add: os_sample_def)
  have ok: "downloads_succeed os_sample (zip ?links ps) w" for ps w
    by (cases ps; cases "tl ps") (auto simp: os_sample_def)
  have str: "str_int 0 = ascii ''0''" "str_int 1 = ascii ''1''"
    by (simp_all add: str_int_def digits.simps ascii_def)
  have upt: "[0..<length ?links] = [0, Suc 0]"
    by (simp add: upt_rec)
  have m1: "map (recitation_path (ascii ''./temp/mp3'')) [0..<length ?links] = ?paths"
    unfolding upt
    by (simp add: str recitation_path_def os_path_join_def startswith_def endswith_def ascii_def)
  have m2: "map (recitation_path (ascii ''./temp/mp3/'')) [0..<length ?links] = ?paths"
    unfolding upt
    by (simp add: str recitation_path_def os_path_join_def startswith_def endswith_def ascii_def)
  have two: "length ps = 2 \<Longrightarrow> ps ! 0 = a \<Longrightarrow> ps ! 1 = b \<Longrightarrow> ps = [a, b]" for ps :: "pystr list" and a b
    by (cases ps; cases "tl ps") auto
  have p1: "fst (download_recitations os_sample ?links (ascii ''./temp/mp3'') 0) = Inr ?paths"
  proof -
    from download_recitations_paths [OF dir [of "ascii ''./temp/mp3''"] ok [of _ 0]]
    obtain paths where "fst (download_recitations os_sample ?links (ascii ''./temp/mp3'') 0) = Inr paths"
      and "length paths = 2"
      and "\<forall>i < 2. paths ! i = ascii ''./temp/mp3'' @
            (if ascii ''./temp/mp3'' = [] \<or> endswith (ascii ''./temp/mp3'') (ascii ''/'') then []
             else ascii ''/'') @ ascii ''recitation_'' @ str_int (int i) @ ascii ''.mp3''"
      by auto
    moreover from this(3) have "paths ! 0 = ascii ''./temp/mp3/recitation_0.mp3''"
      and "paths ! 1 = ascii ''./temp/mp3/recitation_1.mp3''"
      by (simp_all add: str startswith_def endswith_def ascii_def)
    ultimately show ?thesis
      using two by blast
  qed
  have p2: "fst (download_recitations os_sample ?links (ascii ''./temp/mp3/'') 0) = Inr ?paths"
  proof -
    from download_recitations_paths [OF dir [of "ascii ''./temp/mp3/''"] ok [of _ 0]]
    obtain paths where "fst (download_recitations os_sample ?links (ascii ''./temp/mp3/'') 0) = Inr paths"
      and "length paths = 2"
      and "\<forall>i < 2. paths ! i = ascii ''./temp/mp3/'' @
            (if ascii ''./temp/mp3/'' = [] \<or> endswith (ascii ''./temp/mp3/'') (ascii ''/'') then []
             else ascii ''/'') @ ascii ''recitation_'' @ str_int (int i) @ ascii ''.mp3''"
      by auto
    moreover from this(3) have "paths ! 0 = ascii ''./temp/mp3/recitation_0.mp3''"
      and "paths ! 1 = ascii ''./temp/mp3/recitation_1.mp3''"
      by (simp_all add: str startswith_def endswith_def ascii_def)
    ultimately show ?thesis
      using two by blast
  qed
  show ?thesis
    unfolding Let_def
    using dir [of "ascii ''./temp/mp3''"] m1 m2 ok [of ?paths 0] p1 p2
    by (intro conjI)
qed

section \<open>Properties of generate\_ayat\_caption\_file\<close>

lemma utf8_encodable_append [simp]:
  "utf8_encodable (s @ t) = (utf8_encodable s \<and> utf8_encodable t)"
  by (simp add: utf8_encodable_def)

lemma utf8_encodable_ascii [simp]: "utf8_encodable (ascii s)"
proof -
  have "of_char c < (0xD800 :: nat)" for c :: char
  proof -
    have "(of_char c :: nat) = of_char c mod 256"
      by simp
    also have "\<dots> < 256"
      by (rule mod_less_divisor) simp
    finally have "(of_char c :: nat) < 256" .
    then show ?thesis
      by linarith
  qed
  then show ?thesis
    by (simp add: utf8_encodable_def ascii_def list_all_iff)
qed

lemma caption_line_encodable:
  "utf8_encodable (texts ! i) \<Longrightarrow> utf8_encodable (caption_line N texts ds i)"
  by (simp add: caption_line_def) (simp add: utf8_encodable_def)

lemma cumulative_Suc:
  "i < length ds \<Longrightarrow> cumulative N ds (Suc i) = num_add N (cumulative N ds i) (ds ! i)"
  by (simp add: cumulative_def take_Suc_conv_app_nth)

lemma file_write_append:
  "utf8_encodable s \<Longrightarrow> files fs path = Some c \<Longrightarrow>
   file_write path s fs = Inr (fs\<lparr>files := (files fs)(path \<mapsto> c @ s)\<rparr>)"
  by (simp add: file_write_def)

lemma caption_loop_step:
  "caption_loop N texts ds dest (i # rest) cum fs =
     (case file_write dest
             (ascii (num_str N cum) @ ascii '':'' @ ascii (num_str N (num_add N cum (ds ! i))) @
              ascii '':'' @ texts ! i @ [10]) fs of
        Inl e \<Rightarrow> (Inl e, fs)
      | Inr fs' \<Rightarrow> caption_loop N texts ds dest rest (num_add N cum (ds ! i)) fs')"
  by simp

lemma caption_loop_eq:
  "n \<le> length ds \<Longrightarrow> \<forall>j < n. utf8_encodable (texts ! j) \<Longrightarrow> files fs dest = Some c \<Longrightarrow>
   caption_loop N texts ds dest [i..<n] (cumulative N ds i) fs =
     (Inr (),
      fs\<lparr>files := (files fs)(dest \<mapsto> c @ concat (map (caption_line N texts ds) [i..<n]))\<rparr>)"
proof (induction "n - i" arbitrary: i fs c)
  case 0
  then show ?case by (simp add: map_upd_triv)
next
  case (Suc k)
  then have i: "i < n" "i < length ds" and k: "k = n - Suc i"
    by simp_all
  let ?fs = "fs\<lparr>files := (files fs)(dest \<mapsto> c @ caption_line N texts ds i)\<rparr>"
  have upt: "[i..<n] = i # [Suc i..<n]"
    using i by (simp add: upt_rec)
  from i Suc.prems(2) have "utf8_encodable (caption_line N texts ds i)"
    by (simp add: caption_line_encodable)
  then have "file_write dest (caption_line N texts ds i) fs = Inr ?fs"
    using Suc.prems(3) by (rule file_write_append)
  then have "caption_loop N texts ds dest [i..<n] (cumulative N ds i) fs =
      caption_loop N texts ds dest [Suc i..<n] (cumulative N ds (Suc i)) ?fs"
    using i unfolding upt caption_loop_step
    by (simp add: cumulative_Suc caption_line_def)
  also have "\<dots> = (Inr (), ?fs\<lparr>files := (files ?fs)(dest \<mapsto>
      (c @ caption_line N texts ds i) @ concat (map (caption_line N texts ds) [Suc i..<n]))\<rparr>)"
    using Suc.prems(1,2) by (intro Suc.hyps(1) [OF k]) simp_all
  also have "\<dots> = (Inr (), fs\<lparr>files := (files fs)(dest \<mapsto>
      c @ concat (map (caption_line N texts ds) [i..<n]))\<rparr>)"
    by (simp add: upt)
  finally show ?case .
qed

text \<open>
  Claim C5, as the code has it. For texts and durations of equal length, texts that UTF-8
  can encode (and a destination that can be opened) the file holds one line per entry, in
  input order: line \<open>i\<close> starts with the sum of the durations before \<open>i\<close>, followed by
  that sum plus duration \<open>i\<close> and by text \<open>i\<close>, separated by colons and ended by a
  newline.
\<close>

theorem caption_file_cumulative:
  assumes "length texts = length ds" and "writable fs dest"
    and "\<forall>t \<in> set texts. utf8_encodable t"
  shows "generate_ayat_caption_file N texts ds dest fs =
     (Inr (),
      fs\<lparr>files := (files fs)(dest \<mapsto>
        concat (map (\<lambda>i. ascii (num_str N (cumulative N ds i)) @ ascii '':'' @
                          ascii (num_str N (num_add N (cumulative N ds i) (ds ! i))) @
                          ascii '':'' @ texts ! i @ [10])
                    [0..<length ds]))\<rparr>)"
proof -
  let ?fs = "fs\<lparr>files := (files fs)(dest \<mapsto> [])\<rparr>"
  have zero: "num_zero N = cumulative N ds 0"
    by (simp add: cumulative_def)
  have line: "caption_line N texts ds =
      (\<lambda>i. ascii (num_str N (cumulative N ds i)) @ ascii '':'' @
           ascii (num_str N (num_add N (cumulative N ds i) (ds ! i))) @ ascii '':'' @
           texts ! i @ [10])"
    by (simp add: caption_line_def fun_eq_iff)
  from assms(1,3) have enc: "\<forall>j < length ds. utf8_encodable (texts ! j)"
    by simp
  have "caption_loop N texts ds dest [0..<length ds] (cumulative N ds 0) ?fs =
      (Inr (), ?fs\<lparr>files := (files ?fs)(dest \<mapsto>
         [] @ concat (map (caption_line N texts ds) [0..<length ds]))\<rparr>)"
    using enc by (intro caption_loop_eq) simp_all
  then show ?thesis
    using assms(1,2) by (simp add: generate_ayat_caption_file_def open_w_def zero line)
qed

text \<open>
  The durations 3.0, 4.5 and 2.0: the lines start at 0, 3 and 7.5 and end at 3, 7.5 and
  9.5. These sums are exact in binary floating point too.
\<close>

theorem caption_file_cumulative_witness:
  "\<forall>fmt.
     length [ascii ''alif'', ascii ''lam'', ascii ''mim''] = length [3, 4.5, 2 :: real] \<and>
     writable fs_sample (ascii ''captions.txt'') \<and>
     utf8_encodable (ascii ''alif'') \<and> utf8_encodable (ascii ''lam'') \<and>
     utf8_encodable (ascii ''mim'') \<and>
     generate_ayat_caption_file (real_arith fmt) [ascii ''alif'', ascii ''lam'', ascii ''mim'']
         [3, 4.5, 2] (ascii ''captions.txt'') fs_sample =
       (Inr (),
        fs_sample\<lparr>files := (files fs_sample)(ascii ''captions.txt'' \<mapsto>
          ascii (fmt 0) @ ascii '':'' @ ascii (fmt 3) @ ascii '':alif'' @ [10] @
          ascii (fmt 3) @ ascii '':'' @ ascii (fmt 7.5) @ ascii '':lam'' @ [10] @
          ascii (fmt 7.5) @ ascii '':'' @ ascii (fmt 9.5) @ ascii '':mim'' @ [10])\<rparr>)"
proof
  fix fmt :: "real \<Rightarrow> string"
  have len: "length [ascii ''alif'', ascii ''lam'', ascii ''mim''] = length [3, 4.5, 2 :: real]"
    by simp
  have w: "writable fs_sample (ascii ''captions.txt'')"
    by (simp add: fs_sample_def ascii_def)
  have enc: "\<forall>t \<in> set [ascii ''alif'', ascii ''lam'', ascii ''mim'']. utf8_encodable t"
    by simp
  have upt: "[0..<length [3, 4.5, 2 :: real]] = [0, Suc 0, Suc (Suc 0)]"
    by (simp add: upt_rec)
  have "generate_ayat_caption_file (real_arith fmt) [ascii ''alif'', ascii ''lam'', ascii ''mim'']
         [3, 4.5, 2] (ascii ''captions.txt'') fs_sample =
       (Inr (),
        fs_sample\<lparr>files := (files fs_sample)(ascii ''captions.txt'' \<mapsto>
          ascii (fmt 0) @ ascii '':'' @ ascii (fmt 3) @ ascii '':alif'' @ [10] @
          ascii (fmt 3) @ ascii '':'' @ ascii (fmt 7.5) @ ascii '':lam'' @ [10] @
          ascii (fmt 7.5) @ ascii '':'' @ ascii (fmt 9.5) @ ascii '':mim'' @ [10])\<rparr>)"
    using caption_file_cumulative [OF len w enc, of "real_arith fmt"]
    unfolding upt
    by (simp add: cumulative_def real_arith_def ascii_def)
  with len w
  show "length [ascii ''alif'', ascii ''lam'', ascii ''mim''] = length [3, 4.5, 2 :: real] \<and>
     writable fs_sample (ascii ''captions.txt'') \<and>
     utf8_encodable (ascii ''alif'') \<and> utf8_encodable (ascii ''lam'') \<and>
     utf8_encodable (ascii ''mim'') \<and>
     generate_ayat_caption_file (real_arith fmt) [ascii ''alif'', ascii ''lam'', ascii ''mim'']
         [3, 4.5, 2] (ascii ''captions.txt'') fs_sample =
       (Inr (),
        fs_sample\<lparr>files := (files fs_sample)(ascii ''captions.txt'' \<mapsto>
          ascii (fmt 0) @ ascii '':'' @ ascii (fmt 3) @ ascii '':alif'' @ [10] @
          ascii (fmt 3) @ ascii '':'' @ ascii (fmt 7.5) @ ascii '':lam'' @ [10] @
          ascii (fmt 7.5) @ ascii '':'' @ ascii (fmt 9.5) @ ascii '':mim'' @ [10])\<rparr>)"
    by (intro conjI utf8_encodable_ascii)
qed

text \<open>
  Without that condition the claim fails. The texts \<open>'ok'\<close> and a lone surrogate
  \<open>U+D800\<close> with the durations 1 and 2: the second \<open>write\<close> raises
  \<open>UnicodeEncodeError\<close>, and the file holds the first line only.
\<close>

theorem caption_file_cumulative_counterexample:
  "length [ascii ''ok'', [0xD800]] = length [1, 2 :: int] \<and>
   writable fs_sample (ascii ''captions.txt'') \<and>
   generate_ayat_caption_file int_arith [ascii ''ok'', [0xD800]] [1, 2]
       (ascii ''captions.txt'') fs_sample =
     (Inl UnicodeEncodeError,
      fs_sample\<lparr>files := (files fs_sample)(ascii ''captions.txt'' \<mapsto> ascii ''0:1:ok'' @ [10])\<rparr>)"
proof -
  have str: "str_int 0 = [48]" "str_int 1 = [49]"
    by (simp_all add: str_int_def digits.simps)
  have upt: "[0..<length [1, 2 :: int]] = [0, Suc 0]"
    by (simp add: upt_rec)
  show ?thesis
    unfolding generate_ayat_caption_file_def upt
    by (simp add: fs_sample_def open_w_def file_write_def utf8_encodable_def int_arith_def
        str ascii_def)
qed

text \<open>
  Claim C6. With texts and durations of different lengths the function raises the
  size-mismatch exception and the file system is left as it was. The check comes before
  \<open>open\<close>: the error is this one whether or not the destination could be opened.
\<close>

theorem caption_file_size_mismatch:
  "length texts \<noteq> length ds \<Longrightarrow>
   generate_ayat_caption_file N texts ds dest fs =
     (Inl (PyException
             (ascii ''Both ayat texts and durations arrays should be of the same size'')),
      fs)"
  by (auto simp: generate_ayat_caption_file_def)

text \<open>Three texts against two durations, on a destination that could not even be opened.\<close>

theorem caption_file_size_mismatch_witness:
  "length [ascii ''alif'', ascii ''lam'', ascii ''mim''] \<noteq> length [3, 4.5 :: real] \<and>
   \<not> writable fs_sample [] \<and>
   (\<forall>fmt. generate_ayat_caption_file (real_arith fmt)
             [ascii ''alif'', ascii ''lam'', ascii ''mim''] [3, 4.5] [] fs_sample =
           (Inl (PyException
                   (ascii ''Both ayat texts and durations arrays should be of the same size'')),
            fs_sample))"
proof -
  have len: "length [ascii ''alif'', ascii ''lam'', ascii ''mim''] \<noteq> length [3, 4.5 :: real]"
    by simp
  show ?thesis
    using caption_file_size_mismatch [OF len]
    by (simp add: fs_sample_def)
qed

text \<open>
  Claim C10. With no texts and no durations the function raises nothing: it opens the
  destination for writing and closes it, so the destination is afterwards an empty file,
  whatever it held before.
\<close>

theorem caption_file_empty:
  "writable fs dest \<Longrightarrow>
   generate_ayat_caption_file N [] [] dest fs = (Inr (), fs\<lparr>files := (files fs)(dest \<mapsto> [])\<rparr>)"
  by (simp add: generate_ayat_caption_file_def open_w_def)

text \<open>The sample's caption file had content; after the call it is empty.\<close>

theorem caption_file_empty_witness:
  "writable fs_sample (ascii ''captions.txt'') \<and>
   files fs_sample (ascii ''captions.txt'') = Some (ascii ''old captions'') \<and>
   (\<forall>fmt. \<exists>fs'. generate_ayat_caption_file (real_arith fmt) [] [] (ascii ''captions.txt'')
                     fs_sample = (Inr (), fs') \<and>
                   files fs' (ascii ''captions.txt'') = Some [])"
proof -
  have w: "writable fs_sample (ascii ''captions.txt'')"
    by (simp add: fs_sample_def ascii_def)
  have "generate_ayat_caption_file (real_arith fmt) [] [] (ascii ''captions.txt'') fs_sample =
      (Inr (), fs_sample\<lparr>files := (files fs_sample)(ascii ''captions.txt'' \<mapsto> [])\<rparr>)" for fmt
    using caption_file_empty [OF w, of "real_arith fmt"] .
  then show ?thesis
    using w by (simp add: fs_sample_def)
qed

end
